theory Spec2Isabelle
  imports Main "HOL-Library.Sublist"
begin

section \<open>Values, characters and errors\<close>

text \<open>
  The scanner handles Python \<open>str\<close> values. A string is modelled as a list of
  characters, one \<open>char\<close> per code point, so the model covers the code points
  below 256. In that range the regular expression class \<open>\d\<close> matches exactly the
  ten characters \<open>0\<close> to \<open>9\<close>, and \<open>int(c)\<close> of a one-character string
  succeeds on exactly those ten characters and raises \<open>ValueError\<close> on any other.

  \<open>is_luhn_valid\<close> and \<open>mask_pan\<close> are untyped in the source and guard against
  arguments that are no strings; \<open>PyNone\<close> and \<open>PyInt\<close> stand for those.
\<close>

datatype pyval = PyStr string | PyNone | PyInt int

datatype py_error = ValueError | TypeError

definition is_digit :: "char \<Rightarrow> bool" where
  "is_digit c = (let n = (of_char c :: nat) in 48 \<le> n \<and> n \<le> 57)"

text \<open>\<open>int(c)\<close> for a single character \<open>c\<close>.\<close>

definition py_int :: "char \<Rightarrow> py_error + int" where
  "py_int c = (if is_digit c then Inr (int (of_char c) - 48) else Inl ValueError)"

section \<open>The Luhn validator\<close>

text \<open>
  The body of the \<open>for\<close> loop of \<open>is_luhn_valid\<close>, run over the characters from
  the last index down to index 0, with the loop variables \<open>n_sum\<close> and
  \<open>is_second\<close> threaded through. A \<open>ValueError\<close> of \<open>int\<close> leaves the loop.
\<close>

fun luhn_loop :: "string \<Rightarrow> int \<Rightarrow> bool \<Rightarrow> py_error + int" where
  "luhn_loop [] n_sum is_second = Inr n_sum"
| "luhn_loop (c # cs) n_sum is_second =
     (case py_int c of
        Inl e \<Rightarrow> Inl e
      | Inr d0 \<Rightarrow>
          (let d = (if is_second then d0 * 2 else d0)
           in luhn_loop cs (n_sum + d div 10 + d mod 10) (\<not> is_second)))"

text \<open>
  The \<open>try\<close> block: \<open>len\<close>, the loop, and the final test of the sum. On
  \<open>None\<close> and on an integer \<open>len\<close> raises \<open>TypeError\<close>.
\<close>

fun luhn_body :: "pyval \<Rightarrow> py_error + bool" where
  "luhn_body (PyStr s) =
     (case luhn_loop (rev s) 0 False of
        Inl e \<Rightarrow> Inl e
      | Inr n_sum \<Rightarrow> Inr (n_sum mod 10 = 0))"
| "luhn_body PyNone = Inl TypeError"
| "luhn_body (PyInt n) = Inl TypeError"

text \<open>The \<open>except (ValueError, TypeError)\<close> clause turns both errors into \<open>False\<close>.\<close>

definition is_luhn_valid :: "pyval \<Rightarrow> bool" where
  "is_luhn_valid card_number =
     (case luhn_body card_number of
        Inr b \<Rightarrow> b
      | Inl ValueError \<Rightarrow> False
      | Inl TypeError \<Rightarrow> False)"

text \<open>
  The checksum in the words of the specification, for comparison with the code: the
  digits are numbered from the rightmost one (position 0); every digit at an odd
  position is doubled; a doubled value of two digits is replaced by the sum of its
  digits; everything is added up; the total must be divisible by 10.
\<close>

definition digit_value :: "char \<Rightarrow> int" where
  "digit_value c = int (of_char c) - 48"

definition spec_luhn_doubled :: "int \<Rightarrow> int" where
  "spec_luhn_doubled d = (let t = 2 * d in if 10 \<le> t then t div 10 + t mod 10 else t)"

definition spec_luhn_total :: "int list \<Rightarrow> int" where
  "spec_luhn_total ds =
     sum_list (map (\<lambda>(i, d). if odd i then spec_luhn_doubled d else d) (enumerate 0 ds))"

definition spec_luhn_valid :: "string \<Rightarrow> bool" where
  "spec_luhn_valid s = (spec_luhn_total (map digit_value (rev s)) mod 10 = 0)"

section \<open>The masker\<close>

text \<open>
  \<open>pan[:6]\<close> is \<open>take 6\<close>; \<open>pan[-4:]\<close> starts at index \<open>max (len - 4) 0\<close>, which
  is what the truncating subtraction on \<open>nat\<close> gives; \<open>'*' * k\<close> is empty for a
  negative \<open>k\<close>. None of these operations raises.
\<close>

fun mask_pan :: "pyval \<Rightarrow> string" where
  "mask_pan (PyStr pan) =
     (if length pan < 10 then ''Invalid PAN''
      else take 6 pan @ replicate (nat (int (length pan) - 10)) (CHR ''*'')
             @ drop (length pan - 4) pan)"
| "mask_pan v = ''Invalid PAN''"

section \<open>The sanitizer\<close>

text \<open>
  \<open>s.replace(old, new)\<close> replaces the occurrences of \<open>old\<close> from left to right,
  without overlap. For an empty \<open>old\<close> Python puts \<open>new\<close> before every character
  and at the end.
\<close>

function str_replace_scan :: "string \<Rightarrow> string \<Rightarrow> string \<Rightarrow> string" where
  "str_replace_scan old new s =
     (if s = [] then []
      else if old \<noteq> [] \<and> prefix old s
        then new @ str_replace_scan old new (drop (length old) s)
        else hd s # str_replace_scan old new (tl s))"
  by pat_completeness auto
termination
  by (relation "measure (\<lambda>(old, new, s). length s)") auto

declare str_replace_scan.simps [simp del]

definition str_replace :: "string \<Rightarrow> string \<Rightarrow> string \<Rightarrow> string" where
  "str_replace old new s =
     (if old = [] then new @ concat (map (\<lambda>c. c # new) s)
      else str_replace_scan old new s)"

text \<open>\<open>cell_value.replace(' ', '').replace('-', '')\<close>\<close>

definition sanitize :: "string \<Rightarrow> string" where
  "sanitize cell_value = str_replace ''-'' [] (str_replace '' '' [] cell_value)"

section \<open>The extractor\<close>

text \<open>
  One attempt of the pattern \<open>\d{13,19}\<close> at the start of \<open>s\<close>: the quantifier is
  greedy, so it takes the digits in front, 19 at most, and the attempt succeeds when
  there are at least 13 of them. Nothing follows the quantifier in the pattern, so the
  longest attempt is the match.
\<close>

definition match_pan :: "string \<Rightarrow> string option" where
  "match_pan s =
     (let run = takeWhile is_digit (take 19 s)
      in if 13 \<le> length run then Some run else None)"

text \<open>
  \<open>pan_regex.findall\<close>: the matches from left to right without overlap. After a
  match the search goes on behind it; where the pattern does not match, the search moves
  on by one character.
\<close>

function findall_pan :: "string \<Rightarrow> string list" where
  "findall_pan s =
     (if s = [] then []
      else case match_pan s of
             Some m \<Rightarrow> m # findall_pan (drop (length m) s)
           | None \<Rightarrow> findall_pan (tl s))"
  by pat_completeness auto
termination
proof (relation "measure length")
  fix s m :: string
  assume "s \<noteq> []" and "match_pan s = Some m"
  then have "0 < length m" and "0 < length s"
    by (auto simp: match_pan_def Let_def split: if_splits)
  then show "(drop (length m) s, s) \<in> measure length"
    by simp
qed auto

declare findall_pan.simps [simp del]

text \<open>The candidates of one cell: sanitize, then search.\<close>

definition extract_candidates :: "string \<Rightarrow> string list" where
  "extract_candidates cell_value = findall_pan (sanitize cell_value)"

section \<open>The column filter\<close>

text \<open>\<open>upper()\<close> on the letters \<open>a\<close> to \<open>z\<close>; type names are ASCII.\<close>

definition upper_char :: "char \<Rightarrow> char" where
  "upper_char c =
     (let n = (of_char c :: nat) in if 97 \<le> n \<and> n \<le> 122 then char_of (n - 32) else c)"

definition str_upper :: "string \<Rightarrow> string" where
  "str_upper s = map upper_char s"

text \<open>\<open>t in s\<close> for strings: \<open>t\<close> occurs in \<open>s\<close> as a contiguous piece.\<close>

fun str_contains :: "string \<Rightarrow> string \<Rightarrow> bool" where
  "str_contains t [] = (t = [])"
| "str_contains t (c # cs) = (prefix t (c # cs) \<or> str_contains t cs)"

definition type_keywords :: "string list" where
  "type_keywords =
     [''CHAR'', ''VARCHAR'', ''TEXT'', ''TINYTEXT'', ''MEDIUMTEXT'', ''LONGTEXT'', ''JSON'']"

definition is_scannable :: "string \<Rightarrow> bool" where
  "is_scannable col_type = list_ex (\<lambda>t. str_contains t (str_upper col_type)) type_keywords"

text \<open>
  The rows of \<open>DESCRIBE\<close> are pairs of a column name and its type; the type is
  taken as the string that \<open>decode\<close> (for bytes) or \<open>str\<close> makes of it.
\<close>

definition columns_to_scan :: "(string \<times> string) list \<Rightarrow> string list" where
  "columns_to_scan cols = map fst (filter (\<lambda>col. is_scannable (snd col)) cols)"

section \<open>Findings and the report\<close>

record finding =
  PAN :: string
  Location :: string

record report_row =
  Result_no :: nat
  Masked_PAN :: string
  Row_Location :: string

text \<open>\<open>all_findings.append({'PAN': pan, 'Location': location})\<close>\<close>

definition append_finding :: "finding list \<Rightarrow> string \<Rightarrow> string \<Rightarrow> finding list" where
  "append_finding all_findings pan location =
     all_findings @ [\<lparr>PAN = pan, Location = location\<rparr>]"

text \<open>A sequence of appends, one for each pair of a PAN and a location.\<close>

fun append_all :: "finding list \<Rightarrow> (string \<times> string) list \<Rightarrow> finding list" where
  "append_all all_findings [] = all_findings"
| "append_all all_findings ((pan, location) # rest) =
     append_all (append_finding all_findings pan location) rest"

text \<open>The loop over the candidates of one cell, which appends the Luhn-valid ones.\<close>

fun scan_candidates :: "finding list \<Rightarrow> string \<Rightarrow> string list \<Rightarrow> finding list" where
  "scan_candidates all_findings location [] = all_findings"
| "scan_candidates all_findings location (pan # pans) =
     (if is_luhn_valid (PyStr pan)
      then scan_candidates (append_finding all_findings pan location) location pans
      else scan_candidates all_findings location pans)"

definition scan_cell :: "finding list \<Rightarrow> string \<Rightarrow> string \<Rightarrow> finding list" where
  "scan_cell all_findings location cell_value =
     scan_candidates all_findings location (extract_candidates cell_value)"

text \<open>
  The data frame of the report: the column \<open>Result #\<close> is \<open>range(1, len(df) + 1)\<close>,
  the column \<open>Masked PAN\<close> is \<open>mask_pan\<close> applied to the column \<open>PAN\<close>, and the
  report keeps these two and the location.
\<close>

definition report_df :: "finding list \<Rightarrow> report_row list" where
  "report_df all_findings =
     map (\<lambda>(i, f). \<lparr>Result_no = i, Masked_PAN = mask_pan (PyStr (PAN f)),
                     Row_Location = Location f\<rparr>)
       (zip [1 ..< Suc (length all_findings)] all_findings)"

text \<open>With no finding the scan returns before it builds a report.\<close>

definition export_report :: "finding list \<Rightarrow> report_row list option" where
  "export_report all_findings =
     (if all_findings = [] then None else Some (report_df all_findings))"

section \<open>Properties of the validator\<close>

text \<open>
  Claim C9. On the empty string the loop of \<open>is_luhn_valid\<close> runs zero times, the
  sum stays 0, and the function answers valid.
\<close>

theorem is_luhn_valid_empty:
  "luhn_loop (rev []) 0 False = Inr 0 \<and> is_luhn_valid (PyStr []) = True"
  by (simp add: is_luhn_valid_def)

lemma digit_value_range: "is_digit c \<Longrightarrow> 0 \<le> digit_value c \<and> digit_value c \<le> 9"
  by (auto simp: is_digit_def digit_value_def Let_def)

lemma py_int_digit: "is_digit c \<Longrightarrow> py_int c = Inr (digit_value c)"
  by (simp add: py_int_def digit_value_def)

lemma py_int_other: "\<not> is_digit c \<Longrightarrow> py_int c = Inl ValueError"
  by (simp add: py_int_def)

text \<open>
  One round of the loop on a digit: the code adds \<open>d // 10 + d % 10\<close> for the
  possibly doubled digit, which is the digit itself when it was not doubled and the
  digit sum of the doubled value otherwise.
\<close>

lemma luhn_loop_step:
  assumes "is_digit c"
  shows "luhn_loop (c # cs) n b =
     luhn_loop cs (n + (if b then spec_luhn_doubled (digit_value c) else digit_value c)) (\<not> b)"
proof (cases b)
  case True
  then show ?thesis
    using digit_value_range [OF assms]
    by (simp add: py_int_digit [OF assms] spec_luhn_doubled_def Let_def ac_simps)
next
  case False
  then show ?thesis
    using digit_value_range [OF assms]
    by (simp add: py_int_digit [OF assms])
qed

text \<open>
  The loop invariant: the flag \<open>is_second\<close> is the parity of the position counted
  from the right, and \<open>n_sum\<close> holds the contributions of the positions seen so far.
\<close>

lemma luhn_loop_digits:
  "list_all is_digit cs \<Longrightarrow>
     luhn_loop cs n (odd k) =
       Inr (n + sum_list (map (\<lambda>(i, d). if odd i then spec_luhn_doubled d else d)
                            (enumerate k (map digit_value cs))))"
proof (induction cs arbitrary: n k)
  case Nil
  then show ?case by simp
next
  case (Cons c cs)
  then have c: "is_digit c" and cs: "list_all is_digit cs" by simp_all
  have "luhn_loop (c # cs) n (odd k) =
      luhn_loop cs (n + (if odd k then spec_luhn_doubled (digit_value c) else digit_value c))
        (odd (Suc k))"
    by (simp only: luhn_loop_step [OF c]) simp
  also have "\<dots> = Inr (n + (if odd k then spec_luhn_doubled (digit_value c) else digit_value c)
      + sum_list (map (\<lambda>(i, d). if odd i then spec_luhn_doubled d else d)
                            (enumerate (Suc k) (map digit_value cs))))"
    by (rule Cons.IH [OF cs])
  finally show ?case by simp
qed

text \<open>A character that is no digit makes \<open>int\<close> raise, wherever it stands.\<close>

lemma luhn_loop_malformed:
  "\<not> list_all is_digit cs \<Longrightarrow> luhn_loop cs n b = Inl ValueError"
proof (induction cs arbitrary: n b)
  case Nil
  then show ?case by simp
next
  case (Cons c cs)
  show ?case
  proof (cases "is_digit c")
    case True
    with Cons.prems have "\<not> list_all is_digit cs" by simp
    then show ?thesis
      by (simp add: py_int_digit [OF True] Cons.IH Let_def)
  next
    case False
    then show ?thesis by (simp add: py_int_other)
  qed
qed

lemma is_luhn_valid_digits:
  "list_all is_digit s \<Longrightarrow> is_luhn_valid (PyStr s) = spec_luhn_valid s"
  using luhn_loop_digits [of "rev s" 0 0]
  by (simp add: is_luhn_valid_def spec_luhn_valid_def spec_luhn_total_def rev_map)

lemma is_luhn_valid_malformed:
  "\<not> list_all is_digit s \<Longrightarrow> is_luhn_valid (PyStr s) = False"
  using luhn_loop_malformed [of "rev s" 0 False]
  by (simp add: is_luhn_valid_def)

lemma digit_value_zero: "digit_value c = 0 \<longleftrightarrow> c = CHR ''0''"
proof -
  have "digit_value c = 0 \<longleftrightarrow> (of_char c :: nat) = of_char (CHR ''0'')"
    by (simp add: digit_value_def)
  then show ?thesis by (simp only: of_char_eq_iff)
qed

lemma is_luhn_valid_single:
  "is_digit c \<Longrightarrow> is_luhn_valid (PyStr [c]) = (c = CHR ''0'')"
  using digit_value_range [of c] digit_value_zero [of c]
  by (simp add: is_luhn_valid_def py_int_digit)

text \<open>
  Claim C2. On a string of decimal digits \<open>is_luhn_valid\<close> answers valid exactly
  when the checksum described in the specification holds; \<open>4111111111111111\<close> is
  valid and \<open>4111111111111112\<close> is not.
\<close>

theorem is_luhn_valid_checksum:
  "(list_all is_digit s \<longrightarrow> is_luhn_valid (PyStr s) = spec_luhn_valid s)
   \<and> is_luhn_valid (PyStr ''4111111111111111'')
   \<and> \<not> is_luhn_valid (PyStr ''4111111111111112'')"
proof -
  have "is_luhn_valid (PyStr ''4111111111111111'')"
    and "\<not> is_luhn_valid (PyStr ''4111111111111112'')"
    by (simp_all add: is_luhn_valid_def py_int_def is_digit_def)
  then show ?thesis
    using is_luhn_valid_digits [of s] by blast
qed

theorem is_luhn_valid_checksum_witness:
  "list_all is_digit ''79927398713''
   \<and> spec_luhn_valid ''79927398713''
   \<and> is_luhn_valid (PyStr ''79927398713'')"
proof -
  have d: "list_all is_digit ''79927398713''"
    by (simp add: is_digit_def)
  have v: "spec_luhn_valid ''79927398713''"
    by (simp add: spec_luhn_valid_def spec_luhn_total_def spec_luhn_doubled_def
          digit_value_def)
  from d v is_luhn_valid_checksum [of "''79927398713''"] show ?thesis
    by blast
qed

text \<open>
  Claim C3, as the code has it. A string with a character that is no digit is
  answered invalid, the \<open>ValueError\<close> of \<open>int\<close> being caught. A string of one
  digit is answered by its checksum like any other: \<open>0\<close> is valid, the digits
  \<open>1\<close> to \<open>9\<close> are invalid.
\<close>

theorem is_luhn_valid_malformed_or_single:
  "(\<not> list_all is_digit s \<longrightarrow> is_luhn_valid (PyStr s) = False)
   \<and> (is_digit c \<longrightarrow> is_luhn_valid (PyStr [c]) = (c = CHR ''0''))"
  using is_luhn_valid_malformed [of s] is_luhn_valid_single [of c] by blast

theorem is_luhn_valid_malformed_or_single_witness:
  "\<not> list_all is_digit ''4111-1111''
   \<and> is_luhn_valid (PyStr ''4111-1111'') = False
   \<and> is_digit (CHR ''7'')
   \<and> is_luhn_valid (PyStr ''7'') = False"
proof -
  have m: "\<not> list_all is_digit ''4111-1111''" and d: "is_digit (CHR ''7'')"
    by (simp_all add: is_digit_def)
  from m d is_luhn_valid_malformed_or_single [of "''4111-1111''" "CHR ''7''"]
  show ?thesis by simp
qed

text \<open>
  The single digit \<open>0\<close> is answered valid, against claim C3 as the specification
  words it.
\<close>

theorem is_luhn_valid_single_zero:
  "length ''0'' = 1 \<and> list_all is_digit ''0'' \<and> is_luhn_valid (PyStr ''0'') = True"
  by (simp add: is_luhn_valid_def py_int_def is_digit_def)

section \<open>Properties of the masker\<close>

text \<open>
  Claim C4. For a string of at least 10 characters \<open>mask_pan\<close> keeps the length,
  keeps the first 6 and the last 4 characters, and puts \<open>*\<close> at every position in
  between; the 16-digit test number becomes \<open>411111******1111\<close>.
\<close>

theorem mask_pan_shape:
  "(10 \<le> length pan \<longrightarrow>
      length (mask_pan (PyStr pan)) = length pan
    \<and> take 6 (mask_pan (PyStr pan)) = take 6 pan
    \<and> drop (length pan - 4) (mask_pan (PyStr pan)) = drop (length pan - 4) pan
    \<and> (\<forall>i. 6 \<le> i \<and> i < length pan - 4 \<longrightarrow> mask_pan (PyStr pan) ! i = CHR ''*''))
   \<and> mask_pan (PyStr ''4111111111111111'') = ''411111******1111''"
proof -
  have "mask_pan (PyStr ''4111111111111111'') = ''411111******1111''"
    by (simp add: eval_nat_numeral)
  moreover have "10 \<le> length pan \<longrightarrow>
      length (mask_pan (PyStr pan)) = length pan
    \<and> take 6 (mask_pan (PyStr pan)) = take 6 pan
    \<and> drop (length pan - 4) (mask_pan (PyStr pan)) = drop (length pan - 4) pan
    \<and> (\<forall>i. 6 \<le> i \<and> i < length pan - 4 \<longrightarrow> mask_pan (PyStr pan) ! i = CHR ''*'')"
    by (auto simp: nth_append min_def)
  ultimately show ?thesis by blast
qed

theorem mask_pan_shape_witness:
  "10 \<le> length ''378282246310005''
   \<and> mask_pan (PyStr ''378282246310005'') = ''378282*****0005''
   \<and> length (mask_pan (PyStr ''378282246310005'')) = 15
   \<and> mask_pan (PyStr ''378282246310005'') ! 6 = CHR ''*''
   \<and> mask_pan (PyStr ''378282246310005'') ! 10 = CHR ''*''"
proof -
  have l: "10 \<le> length ''378282246310005''" by simp
  have m: "mask_pan (PyStr ''378282246310005'') = ''378282*****0005''"
    by (simp add: eval_nat_numeral)
  note t = mask_pan_shape [of "''378282246310005''"]
  from l t have len:
    "length (mask_pan (PyStr ''378282246310005'')) = length ''378282246310005''"
    by blast
  from l t have stars: "\<forall>i. 6 \<le> i \<and> i < length ''378282246310005'' - 4
      \<longrightarrow> mask_pan (PyStr ''378282246310005'') ! i = CHR ''*''"
    by blast
  have "mask_pan (PyStr ''378282246310005'') ! 6 = CHR ''*''"
    using stars [rule_format, of 6] by (simp del: mask_pan.simps)
  moreover have "mask_pan (PyStr ''378282246310005'') ! 10 = CHR ''*''"
    using stars [rule_format, of 10] by (simp del: mask_pan.simps)
  moreover have "length (mask_pan (PyStr ''378282246310005'')) = 15"
    using len by (simp del: mask_pan.simps)
  ultimately show ?thesis using l m by blast
qed

text \<open>
  Claim C5. A string of fewer than 10 characters gets the marker \<open>Invalid PAN\<close>;
  \<open>mask_pan\<close> is a total function, no branch of it raises.
\<close>

theorem mask_pan_short:
  "length pan < 10 \<Longrightarrow> mask_pan (PyStr pan) = ''Invalid PAN''"
  by simp

theorem mask_pan_short_witness:
  "length ''123456789'' < 10 \<and> mask_pan (PyStr ''123456789'') = ''Invalid PAN''"
  using mask_pan_short [of "''123456789''"] by simp

text \<open>
  Claim C10. A string of exactly 10 characters comes back unchanged: the first 6 and
  the last 4 characters cover it, and no \<open>*\<close> is put in.
\<close>

theorem mask_pan_ten:
  "length pan = 10 \<Longrightarrow> mask_pan (PyStr pan) = pan"
  by simp

theorem mask_pan_ten_witness:
  "length ''4111111111'' = 10 \<and> mask_pan (PyStr ''4111111111'') = ''4111111111''"
  using mask_pan_ten [of "''4111111111''"] by simp

section \<open>Properties of the column filter\<close>

lemma str_contains_sublist: "str_contains t s = sublist t s"
  by (induction s) (simp_all add: sublist_Cons_right)

lemma is_scannable_keywords:
  "is_scannable ty \<longleftrightarrow>
     (\<exists>t \<in> {''CHAR'', ''VARCHAR'', ''TEXT'', ''TINYTEXT'', ''MEDIUMTEXT'', ''LONGTEXT'',
             ''JSON''}.
        \<exists>pre post. str_upper ty = pre @ t @ post)"
  by (simp add: is_scannable_def type_keywords_def str_contains_sublist sublist_def)

lemma columns_to_scan_set:
  "set (columns_to_scan cols) = {name. \<exists>ty. (name, ty) \<in> set cols \<and> is_scannable ty}"
  by (force simp: columns_to_scan_def)

text \<open>
  Claim C8. A column is selected exactly when its type string, in upper case, has one
  of the seven keywords as a contiguous piece; the case of the letters in the type
  string plays no role; \<open>INT\<close> is not selected and \<open>VARCHAR(255)\<close> is.
\<close>

theorem column_filter:
  "(is_scannable ty \<longleftrightarrow>
     (\<exists>t \<in> {''CHAR'', ''VARCHAR'', ''TEXT'', ''TINYTEXT'', ''MEDIUMTEXT'', ''LONGTEXT'',
             ''JSON''}.
        \<exists>pre post. str_upper ty = pre @ t @ post))
   \<and> (str_upper ty = str_upper ty' \<longrightarrow> is_scannable ty = is_scannable ty')
   \<and> set (columns_to_scan cols) = {name. \<exists>ty. (name, ty) \<in> set cols \<and> is_scannable ty}
   \<and> \<not> is_scannable ''INT''
   \<and> is_scannable ''VARCHAR(255)''"
proof -
  have "\<not> is_scannable ''INT''" and "is_scannable ''VARCHAR(255)''"
    by (simp_all add: is_scannable_def type_keywords_def str_upper_def upper_char_def)
  moreover have "str_upper ty = str_upper ty' \<longrightarrow> is_scannable ty = is_scannable ty'"
    by (simp add: is_scannable_def)
  ultimately show ?thesis
    using is_scannable_keywords [of ty] columns_to_scan_set [of cols] by blast
qed

theorem column_filter_witness:
  "str_upper ''varchar(40)'' = str_upper ''VarChar(40)''
   \<and> is_scannable ''varchar(40)'' \<and> is_scannable ''VarChar(40)''
   \<and> set (columns_to_scan [(''id'', ''int(11)''), (''card'', ''varchar(40)'')]) = {''card''}"
proof -
  have u: "str_upper ''varchar(40)'' = str_upper ''VarChar(40)''"
    and s: "is_scannable ''varchar(40)''"
    and c: "columns_to_scan [(''id'', ''int(11)''), (''card'', ''varchar(40)'')] = [''card'']"
    by (simp_all add: columns_to_scan_def is_scannable_def type_keywords_def str_upper_def
          upper_char_def char_of_def bit_0)
  from u s column_filter [of "''varchar(40)''" "''VarChar(40)''" "[]"]
  have "is_scannable ''VarChar(40)''" by blast
  with u s c show ?thesis by simp
qed

section \<open>Properties of the findings and the report\<close>

lemma append_all_eq:
  "append_all acc fs = acc @ map (\<lambda>(p, l). \<lparr>PAN = p, Location = l\<rparr>) fs"
  by (induction acc fs rule: append_all.induct) (simp_all add: append_finding_def)

lemma scan_candidates_eq:
  "scan_candidates acc loc pans =
     acc @ map (\<lambda>p. \<lparr>PAN = p, Location = loc\<rparr>)
             (filter (\<lambda>p. is_luhn_valid (PyStr p)) pans)"
  by (induction pans arbitrary: acc) (simp_all add: append_finding_def)

lemma map_snd_zip_fun:
  "length xs = length ys \<Longrightarrow> map (\<lambda>p. g (snd p)) (zip xs ys) = map g ys"
  by (induction xs ys rule: list_induct2) simp_all

lemma map_fst_zip_fun:
  "length xs = length ys \<Longrightarrow> map (\<lambda>p. g (fst p)) (zip xs ys) = map g xs"
  by (induction xs ys rule: list_induct2) simp_all

lemma report_df_length: "length (report_df fs) = length fs"
  by (simp add: report_df_def del: upt_Suc)

lemma report_df_numbers: "map Result_no (report_df fs) = [1 ..< Suc (length fs)]"
  using map_fst_zip_fun [of "[1 ..< Suc (length fs)]" fs "\<lambda>i. i"]
  by (simp add: report_df_def split_def o_def del: upt_Suc mask_pan.simps)

lemma report_df_masked:
  "map Masked_PAN (report_df fs) = map (\<lambda>f. mask_pan (PyStr (PAN f))) fs"
  using map_snd_zip_fun [of "[1 ..< Suc (length fs)]" fs "\<lambda>f. mask_pan (PyStr (PAN f))"]
  by (simp add: report_df_def split_def o_def del: upt_Suc mask_pan.simps)

lemma report_df_location: "map Row_Location (report_df fs) = map Location fs"
  using map_snd_zip_fun [of "[1 ..< Suc (length fs)]" fs Location]
  by (simp add: report_df_def split_def o_def del: upt_Suc mask_pan.simps)

text \<open>
  Claim C7. After any sequence of appends the findings hold the PANs as they were
  given, in the order of the appends; the report has one row for each finding, in the
  same order, numbered 1, 2, ..., n; the masked PAN of a row is \<open>mask_pan\<close> of the
  stored PAN, computed when the report is built. The PAN stored for a cell is the
  candidate as the extractor gave it. The report is built when there is a finding.
\<close>

theorem report_rows:
  "map PAN (append_all [] fs) = map fst fs
   \<and> map Location (append_all [] fs) = map snd fs
   \<and> length (report_df (append_all [] fs)) = length fs
   \<and> map Result_no (report_df (append_all [] fs)) = [1 ..< Suc (length fs)]
   \<and> map Masked_PAN (report_df (append_all [] fs)) = map (\<lambda>(p, l). mask_pan (PyStr p)) fs
   \<and> map Row_Location (report_df (append_all [] fs)) = map snd fs
   \<and> export_report (append_all [] fs)
        = (if fs = [] then None else Some (report_df (append_all [] fs)))
   \<and> map PAN (scan_cell [] loc cell)
        = filter (\<lambda>p. is_luhn_valid (PyStr p)) (extract_candidates cell)"
proof -
  have pans: "map PAN (append_all [] fs) = map fst fs"
    and locs: "map Location (append_all [] fs) = map snd fs"
    and len: "length (append_all [] fs) = length fs"
    by (simp_all add: append_all_eq o_def split_def)
  have masked: "map (\<lambda>f. mask_pan (PyStr (PAN f))) (append_all [] fs)
      = map (\<lambda>(p, l). mask_pan (PyStr p)) fs"
    by (simp add: append_all_eq o_def split_def del: mask_pan.simps)
  have empty: "append_all [] fs = [] \<longleftrightarrow> fs = []"
    by (simp add: append_all_eq)
  have cell: "map PAN (scan_cell [] loc cell)
        = filter (\<lambda>p. is_luhn_valid (PyStr p)) (extract_candidates cell)"
    by (simp add: scan_cell_def scan_candidates_eq o_def)
  show ?thesis
    by (simp only: report_df_length report_df_numbers report_df_masked report_df_location
          pans locs len masked empty cell export_report_def)
qed

theorem report_rows_witness:
  "map Result_no (report_df (append_all []
       [(''4111111111111111'', ''L1''), (''5500005555555559'', ''L2'')])) = [1, 2]
   \<and> map Masked_PAN (report_df (append_all []
       [(''4111111111111111'', ''L1''), (''5500005555555559'', ''L2'')]))
        = [''411111******1111'', ''550000******5559'']
   \<and> map PAN (append_all []
       [(''4111111111111111'', ''L1''), (''5500005555555559'', ''L2'')])
        = [''4111111111111111'', ''5500005555555559'']"
  using report_rows [of "[(''4111111111111111'', ''L1''), (''5500005555555559'', ''L2'')]"]
  by (simp add: eval_nat_numeral)

section \<open>Properties of the sanitizer and the extractor\<close>

lemma str_replace_scan_single:
  "str_replace_scan [x] [] s = filter (\<lambda>c. c \<noteq> x) s"
proof (induction s)
  case Nil
  show ?case by (subst str_replace_scan.simps) simp
next
  case (Cons c cs)
  show ?case by (subst str_replace_scan.simps) (auto simp: Cons.IH)
qed

lemma sanitize_filter:
  "sanitize s = filter (\<lambda>c. c \<noteq> CHR '' '' \<and> c \<noteq> CHR ''-'') s"
  by (simp add: sanitize_def str_replace_def str_replace_scan_single conj_commute)

lemma sanitize_append: "sanitize (a @ b) = sanitize a @ sanitize b"
  by (simp add: sanitize_filter)

lemma is_digit_not_separator: "is_digit c \<Longrightarrow> c \<noteq> CHR '' '' \<and> c \<noteq> CHR ''-''"
  by (auto simp: is_digit_def)

lemma sanitize_digits: "list_all is_digit d \<Longrightarrow> sanitize d = d"
  by (auto simp: sanitize_filter list_all_iff filter_id_conv dest: is_digit_not_separator)

lemma findall_pan_Nil: "findall_pan [] = []"
  by (subst findall_pan.simps) simp

lemma match_pan_length: "match_pan s = Some m \<Longrightarrow> 13 \<le> length m \<and> length m \<le> length s \<and> length m \<le> 19"
proof -
  have "length (takeWhile is_digit (take 19 s)) \<le> length (take 19 s)"
    by (rule length_takeWhile_le)
  then show "match_pan s = Some m \<Longrightarrow> 13 \<le> length m \<and> length m \<le> length s \<and> length m \<le> 19"
    by (auto simp: match_pan_def Let_def split: if_splits)
qed

lemma match_pan_short: "length s < 13 \<Longrightarrow> match_pan s = None"
  using match_pan_length [of s] by (cases "match_pan s") auto

lemma findall_pan_short: "length s < 13 \<Longrightarrow> findall_pan s = []"
proof (induction s)
  case Nil
  show ?case by (rule findall_pan_Nil)
next
  case (Cons c cs)
  then have "findall_pan cs = []" by simp
  then show ?case
    using Cons.prems by (subst findall_pan.simps) (simp add: match_pan_short)
qed

lemma match_pan_digits:
  assumes "list_all is_digit d"
  shows "match_pan d = (if 13 \<le> length d then Some (take 19 d) else None)"
proof -
  have "\<forall>x \<in> set (take 19 d). is_digit x"
    using assms by (auto simp: list_all_iff dest: in_set_takeD)
  then have tw: "takeWhile is_digit (take 19 d) = take 19 d"
    by (simp only: takeWhile_eq_all_conv)
  have "match_pan d = (if 13 \<le> length (take 19 d) then Some (take 19 d) else None)"
    by (simp only: match_pan_def Let_def tw)
  then show ?thesis by simp
qed

lemma findall_pan_whole:
  assumes "list_all is_digit d" and "13 \<le> length d" and "length d \<le> 19"
  shows "findall_pan d = [d]"
proof -
  from assms have "d \<noteq> []" by auto
  then show ?thesis
    using assms
    by (subst findall_pan.simps) (simp add: match_pan_digits findall_pan_Nil)
qed

lemma findall_pan_long:
  assumes "list_all is_digit d" and "20 \<le> length d"
  shows "findall_pan d = take 19 d # findall_pan (drop 19 d)"
proof -
  from assms have "d \<noteq> []" by auto
  then show ?thesis
    using assms
    by (subst findall_pan.simps) (simp add: match_pan_digits)
qed

text \<open>
  A character that is no digit ends every attempt of the pattern in front of it, so the
  search on both sides of it is independent.
\<close>

lemma takeWhile_take_stop:
  assumes "\<not> P c"
  shows "takeWhile P (take n (a @ c # b)) = takeWhile P (take n a)"
proof (cases "n \<le> length a")
  case True
  then show ?thesis by simp
next
  case False
  then obtain k where "n - length a = Suc k"
    by (cases "n - length a") auto
  then show ?thesis
    using False assms by (simp add: takeWhile_tail)
qed

lemma match_pan_stop:
  assumes "\<not> is_digit c"
  shows "match_pan (a @ c # b) = match_pan a"
  using takeWhile_take_stop [of is_digit, OF assms, of 19 a b]
  by (simp only: match_pan_def)

lemma findall_pan_stop:
  "\<not> is_digit c \<Longrightarrow> findall_pan (a @ c # b) = findall_pan a @ findall_pan b"
proof (induction a rule: findall_pan.induct)
  case (1 s)
  show ?case
  proof (cases "s = []")
    case True
    have "match_pan (c # b) = None"
      using 1 by (simp add: match_pan_def)
    then have "findall_pan (c # b) = findall_pan b"
      by (subst findall_pan.simps) simp
    with True show ?thesis by (simp add: findall_pan_Nil)
  next
    case False
    note m = match_pan_stop [OF "1.prems", of s b]
    show ?thesis
    proof (cases "match_pan s")
      case None
      with False m have "findall_pan (s @ c # b) = findall_pan (tl s @ c # b)"
        by (subst findall_pan.simps) simp
      also have "\<dots> = findall_pan (tl s) @ findall_pan b"
        using "1.IH"(1) [OF False None "1.prems"] .
      also have "findall_pan (tl s) = findall_pan s"
        using False None by (subst (2) findall_pan.simps) simp
      finally show ?thesis .
    next
      case (Some x)
      then have len: "length x \<le> length s"
        using match_pan_length by blast
      with False m Some
      have "findall_pan (s @ c # b) = x # findall_pan (drop (length x) s @ c # b)"
        by (subst findall_pan.simps) simp
      also have "findall_pan (drop (length x) s @ c # b)
          = findall_pan (drop (length x) s) @ findall_pan b"
        using "1.IH"(2) [OF False Some "1.prems"] .
      also have "x # findall_pan (drop (length x) s) @ findall_pan b
          = findall_pan s @ findall_pan b"
        using False Some by (subst (2) findall_pan.simps) simp
      finally show ?thesis .
    qed
  qed
qed


lemma list_all_drop: "list_all P xs \<Longrightarrow> list_all P (drop n xs)"
  by (auto simp: list_all_iff dest: in_set_dropD)

text \<open>
  Claim C1, as the code has it. On a string of decimal digits the extractor gives no
  candidate when there are fewer than 13 digits and the string itself when there are 13
  to 19. The pattern is not tied to the ends of a run of digits: on 20 digits or more
  the first candidate is the first 19 digits, and the search goes on in the digits
  behind them.
\<close>

theorem extract_digit_string:
  "list_all is_digit d \<longrightarrow>
     (length d < 13 \<longrightarrow> extract_candidates d = [])
   \<and> (13 \<le> length d \<and> length d \<le> 19 \<longrightarrow> extract_candidates d = [d])
   \<and> (20 \<le> length d \<longrightarrow>
        extract_candidates d = take 19 d # extract_candidates (drop 19 d))"
proof
  assume d: "list_all is_digit d"
  then have e: "extract_candidates d = findall_pan d"
    and r: "extract_candidates (drop 19 d) = findall_pan (drop 19 d)"
    by (simp_all add: extract_candidates_def sanitize_digits list_all_drop)
  show "(length d < 13 \<longrightarrow> extract_candidates d = [])
   \<and> (13 \<le> length d \<and> length d \<le> 19 \<longrightarrow> extract_candidates d = [d])
   \<and> (20 \<le> length d \<longrightarrow>
        extract_candidates d = take 19 d # extract_candidates (drop 19 d))"
    unfolding e r
    using findall_pan_short [of d] findall_pan_whole [OF d] findall_pan_long [OF d]
    by blast
qed

theorem extract_digit_string_witness:
  "list_all is_digit ''123456789012'' \<and> extract_candidates ''123456789012'' = []
   \<and> list_all is_digit ''4111111111111111''
   \<and> extract_candidates ''4111111111111111'' = [''4111111111111111'']
   \<and> list_all is_digit ''12345678901234567890''
   \<and> extract_candidates ''12345678901234567890''
        = ''1234567890123456789'' # extract_candidates ''0''"
proof -
  have d: "list_all is_digit ''123456789012''" "list_all is_digit ''4111111111111111''"
    "list_all is_digit ''12345678901234567890''"
    by (simp_all add: is_digit_def)
  from d(1) extract_digit_string [of "''123456789012''"]
  have a: "extract_candidates ''123456789012'' = []" by simp
  from d(2) extract_digit_string [of "''4111111111111111''"]
  have b: "extract_candidates ''4111111111111111'' = [''4111111111111111'']" by simp
  from d(3) extract_digit_string [of "''12345678901234567890''"]
  have c: "extract_candidates ''12345678901234567890''
        = ''1234567890123456789'' # extract_candidates ''0''" by simp
  from d a b c show ?thesis by blast
qed

text \<open>
  A run of 20 digits gives its first 19 digits as a candidate, against claim C1 as
  the specification words it.
\<close>

theorem extract_run_of_20:
  "list_all is_digit ''12345678901234567890''
   \<and> length ''12345678901234567890'' = 20
   \<and> extract_candidates ''12345678901234567890'' = [''1234567890123456789'']
   \<and> extract_candidates ''12345678901234567890'' \<noteq> []"
  by (simp add: extract_candidates_def sanitize_def str_replace_def match_pan_def is_digit_def
        findall_pan.simps str_replace_scan.simps)

lemma findall_pan_then:
  assumes "list_all is_digit d" and "13 \<le> length d" and "length d \<le> 19"
    and "rest = [] \<or> \<not> is_digit (hd rest)"
  shows "findall_pan (d @ rest) = d # findall_pan rest"
proof (cases rest)
  case Nil
  then show ?thesis
    using findall_pan_whole [OF assms(1-3)] by (simp add: findall_pan_Nil)
next
  case (Cons c r)
  with assms(4) have c: "\<not> is_digit c" by simp
  have "findall_pan (d @ c # r) = findall_pan d @ findall_pan r"
    by (rule findall_pan_stop [OF c])
  moreover have "findall_pan ([] @ c # r) = findall_pan [] @ findall_pan r"
    by (rule findall_pan_stop [OF c])
  ultimately show ?thesis
    using Cons findall_pan_whole [OF assms(1-3)] by (simp add: findall_pan_Nil)
qed

lemma findall_pan_after:
  assumes "front = [] \<or> \<not> is_digit (last front)"
  shows "findall_pan (front @ rest) = findall_pan front @ findall_pan rest"
proof (cases front rule: rev_cases)
  case Nil
  then show ?thesis by (simp add: findall_pan_Nil)
next
  case (snoc f c)
  with assms have c: "\<not> is_digit c" by simp
  have "findall_pan (f @ c # rest) = findall_pan f @ findall_pan rest"
    by (rule findall_pan_stop [OF c])
  moreover have "findall_pan (f @ c # []) = findall_pan f @ findall_pan []"
    by (rule findall_pan_stop [OF c])
  ultimately show ?thesis
    using snoc by (simp add: findall_pan_Nil)
qed

text \<open>
  Claim C6, as the code has it. The sanitizer is the function that drops every space
  and every hyphen and keeps all other characters in their order. A text with the piece
  \<open>4111 1111 1111 1111\<close> gives the candidate \<open>4111111111111111\<close>, between the
  candidates of what stands before and behind it, when in the sanitized text no digit
  stands next to the piece.
\<close>

theorem sanitize_then_extract:
  "sanitize s = filter (\<lambda>c. c \<noteq> CHR '' '' \<and> c \<noteq> CHR ''-'') s
   \<and> sanitize [] = []
   \<and> ((sanitize pre = [] \<or> \<not> is_digit (last (sanitize pre)))
        \<and> (sanitize post = [] \<or> \<not> is_digit (hd (sanitize post)))
      \<longrightarrow> extract_candidates (pre @ ''4111 1111 1111 1111'' @ post)
            = extract_candidates pre @ [''4111111111111111''] @ extract_candidates post)"
proof -
  have pan: "sanitize ''4111 1111 1111 1111'' = ''4111111111111111''"
    by (simp add: sanitize_filter)
  have digits: "list_all is_digit ''4111111111111111''"
    by (simp add: is_digit_def)
  have "extract_candidates (pre @ ''4111 1111 1111 1111'' @ post)
            = extract_candidates pre @ [''4111111111111111''] @ extract_candidates post"
    if front: "sanitize pre = [] \<or> \<not> is_digit (last (sanitize pre))"
      and rest: "sanitize post = [] \<or> \<not> is_digit (hd (sanitize post))"
  proof -
    have "findall_pan (sanitize pre @ ''4111111111111111'' @ sanitize post)
        = findall_pan (sanitize pre) @ findall_pan (''4111111111111111'' @ sanitize post)"
      by (rule findall_pan_after [OF front])
    also have "findall_pan (''4111111111111111'' @ sanitize post)
        = ''4111111111111111'' # findall_pan (sanitize post)"
      by (rule findall_pan_then [OF digits _ _ rest]) simp_all
    finally have f: "findall_pan (sanitize pre @ ''4111111111111111'' @ sanitize post)
        = findall_pan (sanitize pre) @ ''4111111111111111'' # findall_pan (sanitize post)" .
    have san: "sanitize (pre @ ''4111 1111 1111 1111'' @ post)
        = sanitize pre @ ''4111111111111111'' @ sanitize post"
      by (simp only: sanitize_append pan)
    show ?thesis
      unfolding extract_candidates_def san f by simp
  qed
  then show ?thesis
    by (simp add: sanitize_filter)
qed

theorem sanitize_then_extract_witness:
  "sanitize ''card: '' \<noteq> [] \<and> \<not> is_digit (last (sanitize ''card: ''))
   \<and> sanitize '' exp 12/26'' \<noteq> [] \<and> \<not> is_digit (hd (sanitize '' exp 12/26''))
   \<and> sanitize ''card: 4111 1111 1111 1111 exp 12/26'' = ''card:4111111111111111exp12/26''
   \<and> extract_candidates ''card: 4111 1111 1111 1111 exp 12/26'' = [''4111111111111111'']"
proof -
  have s: "sanitize ''card: '' = ''card:''" "sanitize '' exp 12/26'' = ''exp12/26''"
    "sanitize ''card: 4111 1111 1111 1111 exp 12/26'' = ''card:4111111111111111exp12/26''"
    by (simp_all add: sanitize_def str_replace_def str_replace_scan.simps)
  have n: "\<not> is_digit (CHR '':'')" "\<not> is_digit (CHR ''e'')"
    by (simp_all add: is_digit_def)
  have e: "extract_candidates ''card: '' = []" "extract_candidates '' exp 12/26'' = []"
    by (simp_all add: extract_candidates_def s findall_pan_short)
  from s n e sanitize_then_extract [of _ "''card: ''" "'' exp 12/26''"]
  show ?thesis by simp
qed

text \<open>
  Three digits in front of the piece join it in the sanitized text: the one candidate
  has 19 digits and \<open>4111111111111111\<close> is not found, against claim C6 as the
  specification words it.
\<close>

theorem extract_adjacent_digits:
  "extract_candidates (''999'' @ ''4111 1111 1111 1111'') = [''9994111111111111111'']
   \<and> ''4111111111111111'' \<notin> set (extract_candidates (''999'' @ ''4111 1111 1111 1111''))"
  by (simp add: extract_candidates_def sanitize_def str_replace_def match_pan_def is_digit_def
        findall_pan.simps str_replace_scan.simps)

end
